theory Spec2Isabelle
  imports Main "HOL-Library.AList"
begin

section \<open>JavaScript values\<close>

text \<open>
  The reporter stores values of the union
  \<^verbatim>\<open>string | number | boolean | null | undefined | object\<close>.
  A number is an IEEE double. The model keeps the special values the equality oracle
  is sensitive to (\<open>NaN\<close>, the two zeros, the two infinities) and takes the finite
  values to be integers: \<open>Fin 0\<close> is \<open>+0\<close>, \<open>NegZero\<close> is \<open>-0\<close>. Rounding of
  fractional or very large doubles is outside the model.
  An object stored as a value is a reference: \<open>Ref a\<close> is the object at address \<open>a\<close>,
  and \<open>Builtin k\<close> is the object that \<^verbatim>\<open>Object.prototype\<close> holds under the name
  \<open>k\<close>: a function, except that under \<^verbatim>\<open>__proto__\<close> a plain object reads
  \<^verbatim>\<open>Object.prototype\<close> itself.
\<close>

datatype jsnum = Fin int | NegZero | NaN | PosInf | NegInf

fun js_neg :: "jsnum \<Rightarrow> jsnum" where
  "js_neg (Fin n) = (if n = 0 then NegZero else Fin (- n))"
| "js_neg NegZero = Fin 0"
| "js_neg NaN = NaN"
| "js_neg PosInf = NegInf"
| "js_neg NegInf = PosInf"

text \<open>The operator \<^verbatim>\<open>+\<close> on two numbers.\<close>

fun js_add :: "jsnum \<Rightarrow> jsnum \<Rightarrow> jsnum" where
  "js_add NaN _ = NaN"
| "js_add _ NaN = NaN"
| "js_add PosInf NegInf = NaN"
| "js_add NegInf PosInf = NaN"
| "js_add PosInf _ = PosInf"
| "js_add _ PosInf = PosInf"
| "js_add NegInf _ = NegInf"
| "js_add _ NegInf = NegInf"
| "js_add NegZero NegZero = NegZero"
| "js_add NegZero (Fin n) = Fin n"
| "js_add (Fin m) NegZero = Fin m"
| "js_add (Fin m) (Fin n) = Fin (m + n)"

text \<open>The operator \<^verbatim>\<open>-\<close> on two numbers: \<open>a - b\<close> is \<open>a + (-b)\<close>.\<close>

definition js_sub :: "jsnum \<Rightarrow> jsnum \<Rightarrow> jsnum" where
  "js_sub a b = js_add a (js_neg b)"

datatype jsvalue = Str string | Num jsnum | Bool bool | Null | Undefined | Ref nat | Builtin string

text \<open>
  \<^verbatim>\<open>Object.is\<close>: the same value. On this representation it is equality of the
  representing terms: \<open>NaN\<close> is one term, the two zeros are two, and two references
  are the same when their addresses are.
\<close>

definition object_is :: "jsvalue \<Rightarrow> jsvalue \<Rightarrow> bool" where
  "object_is v w \<longleftrightarrow> v = w"

fun typeof :: "jsvalue \<Rightarrow> string" where
  "typeof (Str _) = ''string''"
| "typeof (Num _) = ''number''"
| "typeof (Bool _) = ''boolean''"
| "typeof Null = ''object''"
| "typeof Undefined = ''undefined''"
| "typeof (Ref _) = ''object''"
| "typeof (Builtin k) = (if k = ''__proto__'' then ''object'' else ''function'')"

text \<open>The values that \<^verbatim>\<open>!v\<close> does not negate to \<^verbatim>\<open>true\<close>.\<close>

fun truthy :: "jsvalue \<Rightarrow> bool" where
  "truthy (Str s) = (s \<noteq> [])"
| "truthy (Num n) = (n \<noteq> Fin 0 \<and> n \<noteq> NegZero \<and> n \<noteq> NaN)"
| "truthy (Bool b) = b"
| "truthy Null = False"
| "truthy Undefined = False"
| "truthy (Ref _) = True"
| "truthy (Builtin _) = True"

section \<open>Objects\<close>

text \<open>
  The own string-keyed properties of an object, in the order \<^verbatim>\<open>Object.keys\<close>
  lists them. A reporter state, a delta and a snapshot are built by object literals,
  spread and \<^verbatim>\<open>Object.assign\<close>, so all their properties are enumerable: they are
  property lists (\<open>props\<close>). An arbitrary object may also own properties that are not
  enumerable (\<^verbatim>\<open>Object.defineProperty\<close>); \<open>jsobject\<close> keeps them apart.
  A well-formed object names each key once. JavaScript lists integer-like keys
  before the others; the oracle and every read are insensitive to the order of the
  keys, and the lists keep the order of insertion.
\<close>

type_synonym props = "(string \<times> jsvalue) list"

record jsobject =
  enumerable :: props
  hidden :: props

definition wf_props :: "props \<Rightarrow> bool" where
  "wf_props s \<longleftrightarrow> distinct (map fst s)"

definition wf_object :: "jsobject \<Rightarrow> bool" where
  "wf_object ob \<longleftrightarrow> distinct (map fst (enumerable ob @ hidden ob))"

text \<open>An object whose properties are all enumerable.\<close>

definition plain :: "props \<Rightarrow> jsobject" where
  "plain s = \<lparr>enumerable = s, hidden = []\<rparr>"

text \<open>\<^verbatim>\<open>Object.keys(ob)\<close>: the enumerable own keys.\<close>

definition object_keys :: "jsobject \<Rightarrow> string list" where
  "object_keys ob = map fst (enumerable ob)"

text \<open>\<^verbatim>\<open>Object.hasOwn(ob, k)\<close>: any own property, enumerable or not.\<close>

definition hasOwn :: "jsobject \<Rightarrow> string \<Rightarrow> bool" where
  "hasOwn ob k \<longleftrightarrow> k \<in> set (map fst (enumerable ob)) \<or> k \<in> set (map fst (hidden ob))"

text \<open>\<^verbatim>\<open>ob[k]\<close>: the property's value, \<^verbatim>\<open>undefined\<close> when there is none.\<close>

definition get_prop :: "jsobject \<Rightarrow> string \<Rightarrow> jsvalue" where
  "get_prop ob k = (case map_of (enumerable ob @ hidden ob) k of None \<Rightarrow> Undefined | Some v \<Rightarrow> v)"

text \<open>
  The value of the own property \<open>k\<close> of a property list, \<^verbatim>\<open>undefined\<close> when it
  owns none: this is \<^verbatim>\<open>s[k]\<close> wherever \<open>k\<close> is one of the object's own keys.
\<close>

definition lookup :: "props \<Rightarrow> string \<Rightarrow> jsvalue" where
  "lookup s k = (case map_of s k of None \<Rightarrow> Undefined | Some v \<Rightarrow> v)"

text \<open>
  Every object here is created by a literal or a spread, so its prototype is
  \<^verbatim>\<open>Object.prototype\<close>, whose own property names are these.
\<close>

definition object_prototype_names :: "string list" where
  "object_prototype_names =
     [''constructor'', ''__defineGetter__'', ''__defineSetter__'', ''hasOwnProperty'',
      ''__lookupGetter__'', ''__lookupSetter__'', ''isPrototypeOf'', ''propertyIsEnumerable'',
      ''toString'', ''valueOf'', ''__proto__'', ''toLocaleString'']"

text \<open>
  \<^verbatim>\<open>s[k]\<close> for any key: the own property, else the member inherited from
  \<^verbatim>\<open>Object.prototype\<close>, else \<^verbatim>\<open>undefined\<close>.
\<close>

definition get_member :: "props \<Rightarrow> string \<Rightarrow> jsvalue" where
  "get_member s k =
     (case map_of s k of
        Some v \<Rightarrow> v
      | None \<Rightarrow> if k \<in> set object_prototype_names then Builtin k else Undefined)"

text \<open>
  \<^verbatim>\<open>t[k] = v\<close>. A key the object owns is overwritten in place, and a new key goes
  to the end, except \<^verbatim>\<open>__proto__\<close>: on an object that does not own it the
  assignment runs the setter inherited from \<^verbatim>\<open>Object.prototype\<close>, which creates no
  property. (When \<open>v\<close> is an object or \<^verbatim>\<open>null\<close> the setter replaces the object's
  prototype; the own properties stay as they are, and the model does not follow a
  replaced prototype.)
\<close>

definition set_member :: "props \<Rightarrow> string \<Rightarrow> jsvalue \<Rightarrow> props" where
  "set_member t k v =
     (if k = ''__proto__'' \<and> k \<notin> set (map fst t) then t else AList.update k v t)"

text \<open>
  \<^verbatim>\<open>Object.assign(target, source)\<close>: each property of the source, in order, is
  assigned to the target.
\<close>

definition object_assign :: "props \<Rightarrow> props \<Rightarrow> props" where
  "object_assign target source = fold (\<lambda>(k, v) t. set_member t k v) source target"

section \<open>The equality oracle\<close>

text \<open>
  \<^verbatim>\<open>shallowEqual\<close> of \<^verbatim>\<open>src/objects/shallow-equal.ts\<close> and of
  \<^verbatim>\<open>src/objects/equality.ts\<close>. Both parameters have the type
  \<^verbatim>\<open>T extends object\<close>, so the first file's guard for arguments that are not
  objects does not fire; the second file's shortcut \<^verbatim>\<open>a === b\<close> returns what the
  loop returns on one object compared with itself (\<open>shallowEqual_refl\<close> below). After
  that the two bodies are the same: compare the numbers of keys, then walk the keys
  of \<open>a\<close>.
\<close>

fun shallowEqual_loop :: "jsobject \<Rightarrow> jsobject \<Rightarrow> string list \<Rightarrow> bool" where
  "shallowEqual_loop a b [] = True"
| "shallowEqual_loop a b (key # rest) =
     (if \<not> hasOwn b key then False
      else if \<not> object_is (get_prop a key) (get_prop b key) then False
      else shallowEqual_loop a b rest)"

definition shallowEqual :: "jsobject \<Rightarrow> jsobject \<Rightarrow> bool" where
  "shallowEqual a b =
     (if length (object_keys a) \<noteq> length (object_keys b) then False
      else shallowEqual_loop a b (object_keys a))"

section \<open>Operation functions\<close>

text \<open>
  An \<^verbatim>\<open>Operation\<close> maps the current state to a partial delta. The three
  constructors of \<^verbatim>\<open>operations.ts\<close>; \<^verbatim>\<open>set\<close> is \<open>set_op\<close> here.
\<close>

type_synonym Operation = "props \<Rightarrow> props"

definition set_op :: "string \<Rightarrow> jsvalue \<Rightarrow> Operation" where
  "set_op key v = (\<lambda>st. [(key, v)])"

definition add :: "string \<Rightarrow> jsnum \<Rightarrow> Operation" where
  "add key amount =
     (\<lambda>st. let cur = (case get_member st key of Num n \<Rightarrow> n | _ \<Rightarrow> Fin 0)
           in [(key, Num (js_add cur amount))])"

definition sub :: "string \<Rightarrow> jsnum \<Rightarrow> Operation" where
  "sub key amount =
     (\<lambda>st. let cur = (case get_member st key of Num n \<Rightarrow> n | _ \<Rightarrow> Fin 0)
           in [(key, Num (js_sub cur amount))])"

section \<open>The reporter\<close>

text \<open>
  \<^verbatim>\<open>Reporter<T>\<close> holds \<^verbatim>\<open>#state\<close> and a \<^verbatim>\<open>BehaviorSubject\<close>. The field
  \<open>subject\<close> is the list of the values the subject has held, oldest first: the value
  the constructor gave it, then one entry for every call of \<^verbatim>\<open>next\<close>. An emission
  is an entry appended to it.
\<close>

record reporter =
  state :: props
  subject :: "props list"

definition Reporter :: "props option \<Rightarrow> reporter" where
  "Reporter initial =
     (let s = (case initial of None \<Rightarrow> [] | Some i \<Rightarrow> i)
      in \<lparr>state = s, subject = [s]\<rparr>)"

datatype item = Delta props | Op Operation

text \<open>The loop of \<^verbatim>\<open>apply\<close> over the items, on the working copy \<open>next\<close>.\<close>

fun apply_items :: "item list \<Rightarrow> props \<Rightarrow> props" where
  "apply_items [] next = next"
| "apply_items (it # items) next =
     (let delta = (case it of Op f \<Rightarrow> f next | Delta d \<Rightarrow> d)
      in apply_items items (object_assign next delta))"

definition Reporter_apply :: "item list \<Rightarrow> reporter \<Rightarrow> reporter" where
  "Reporter_apply items r =
     (let next = apply_items items (state r)
      in if \<not> shallowEqual (plain (state r)) (plain next)
         then r\<lparr>state := next, subject := subject r @ [next]\<rparr>
         else r)"

definition Reporter_set :: "string \<Rightarrow> jsvalue \<Rightarrow> reporter \<Rightarrow> reporter" where
  "Reporter_set key v r = Reporter_apply [Delta [(key, v)]] r"

definition Reporter_add :: "string \<Rightarrow> jsnum \<Rightarrow> reporter \<Rightarrow> reporter" where
  "Reporter_add key amount r = Reporter_apply [Op (add key amount)] r"

definition Reporter_sub :: "string \<Rightarrow> jsnum \<Rightarrow> reporter \<Rightarrow> reporter" where
  "Reporter_sub key amount r = Reporter_apply [Op (sub key amount)] r"

definition Reporter_snapshot :: "reporter \<Rightarrow> props" where
  "Reporter_snapshot r = state r"

type_synonym predicate = "props \<Rightarrow> string \<Rightarrow> bool"

text \<open>
  The loop of \<^verbatim>\<open>prune\<close> over \<^verbatim>\<open>Object.keys(this.#state)\<close>; the accumulator is
  the pair of \<^verbatim>\<open>next\<close> and \<^verbatim>\<open>removed\<close>.
\<close>

fun prune_loop :: "predicate list \<Rightarrow> props \<Rightarrow> string list \<Rightarrow> props \<times> bool \<Rightarrow> props \<times> bool" where
  "prune_loop predicates s [] acc = acc"
| "prune_loop predicates s (key # rest) (next, removed) =
     (if list_all (\<lambda>fn. fn s key) predicates
      then prune_loop predicates s rest (set_member next key (lookup s key), removed)
      else prune_loop predicates s rest (next, True))"

definition Reporter_prune :: "predicate list \<Rightarrow> reporter \<Rightarrow> reporter" where
  "Reporter_prune predicates r =
     (let (next, removed) = prune_loop predicates (state r) (map fst (state r)) ([], False)
      in if removed \<and> \<not> shallowEqual (plain (state r)) (plain next)
         then r\<lparr>state := next, subject := subject r @ [next]\<rparr>
         else r)"

text \<open>
  \<^verbatim>\<open>transform\<close>. The parameter's type declares the one optional field
  \<^verbatim>\<open>keep\<close>, and the body reads no other. \<^verbatim>\<open>next\<close> starts as a copy of the
  state, and \<^verbatim>\<open>passesDrop\<close> is computed from \<^verbatim>\<open>options.keep\<close>.
\<close>

record transform_options =
  keep :: "predicate list option"

fun transform_loop :: "transform_options \<Rightarrow> props \<Rightarrow> string list \<Rightarrow> props \<times> bool \<Rightarrow> props \<times> bool" where
  "transform_loop opts s [] acc = acc"
| "transform_loop opts s (key # rest) (next, removed) =
     (let passesKeep = (case keep opts of None \<Rightarrow> True | Some ks \<Rightarrow> list_ex (\<lambda>fn. fn s key) ks);
          passesDrop = (case keep opts of None \<Rightarrow> False | Some ks \<Rightarrow> list_ex (\<lambda>fn. fn s key) ks)
      in if passesKeep \<and> \<not> passesDrop
         then transform_loop opts s rest (set_member next key (lookup s key), removed)
         else transform_loop opts s rest (next, True))"

definition Reporter_transform :: "transform_options \<Rightarrow> reporter \<Rightarrow> reporter" where
  "Reporter_transform opts r =
     (let (next, removed) = transform_loop opts (state r) (map fst (state r)) (state r, False)
      in if removed \<and> \<not> shallowEqual (plain (state r)) (plain next)
         then r\<lparr>state := next, subject := subject r @ [next]\<rparr>
         else r)"

section \<open>Streams\<close>

text \<open>
  Every operator the reporter pipes its subject through is synchronous and keeps its
  state per subscriber, so a stream is modelled by the list of values one subscriber
  receives, and an operator by a function on such lists.
  A \<^verbatim>\<open>BehaviorSubject\<close> gives a new subscriber its current value, then every value
  passed to \<^verbatim>\<open>next\<close> afterwards: \<open>behavior_values r\<^sub>0 r\<close> is what a subscriber who
  subscribed when the reporter was \<open>r\<^sub>0\<close> has received when the reporter is \<open>r\<close>.
\<close>

fun distinctUntilChanged_from :: "('a \<Rightarrow> 'a \<Rightarrow> bool) \<Rightarrow> 'a \<Rightarrow> 'a list \<Rightarrow> 'a list" where
  "distinctUntilChanged_from cmp prev [] = []"
| "distinctUntilChanged_from cmp prev (x # xs) =
     (if cmp prev x then distinctUntilChanged_from cmp prev xs
      else x # distinctUntilChanged_from cmp x xs)"

fun distinctUntilChanged :: "('a \<Rightarrow> 'a \<Rightarrow> bool) \<Rightarrow> 'a list \<Rightarrow> 'a list" where
  "distinctUntilChanged cmp [] = []"
| "distinctUntilChanged cmp (x # xs) = x # distinctUntilChanged_from cmp x xs"

definition startWith :: "'a \<Rightarrow> 'a list \<Rightarrow> 'a list" where
  "startWith x xs = x # xs"

fun pairwise_list :: "'a list \<Rightarrow> ('a \<times> 'a) list" where
  "pairwise_list (x # y # zs) = (x, y) # pairwise_list (y # zs)"
| "pairwise_list _ = []"

definition behavior_values :: "reporter \<Rightarrow> reporter \<Rightarrow> props list" where
  "behavior_values r0 r = last (subject r0) # drop (length (subject r0)) (subject r)"

text \<open>\<^verbatim>\<open>metrics$\<close>: the subject piped through \<^verbatim>\<open>distinctUntilChanged(shallowEqual)\<close>.\<close>

definition metrics_stream :: "reporter \<Rightarrow> reporter \<Rightarrow> props list" where
  "metrics_stream r0 r =
     distinctUntilChanged (\<lambda>a b. shallowEqual (plain a) (plain b)) (behavior_values r0 r)"

text \<open>
  \<^verbatim>\<open>watch(...keys)\<close>, as a function of what its subscription to \<^verbatim>\<open>metrics$\<close>
  delivers. The snapshot that \<^verbatim>\<open>startWith\<close> replays is taken when \<^verbatim>\<open>watch\<close> is
  called, on the reporter \<open>r\<close>.
\<close>

definition Reporter_watch :: "string list \<Rightarrow> reporter \<Rightarrow> props list \<Rightarrow> props list" where
  "Reporter_watch ks r source =
     map snd
       (filter (\<lambda>(prev, curr). list_ex (\<lambda>k. \<not> object_is (get_member prev k) (get_member curr k)) ks)
          (pairwise_list (startWith (Reporter_snapshot r) source)))"

section \<open>Sequences of calls\<close>

text \<open>The mutating methods of \<^verbatim>\<open>Reporter<T>\<close>, as commands.\<close>

datatype command =
    Apply "item list"
  | Set string jsvalue
  | Add string jsnum
  | Sub string jsnum
  | Prune "predicate list"
  | Transform transform_options

fun exec :: "command \<Rightarrow> reporter \<Rightarrow> reporter" where
  "exec (Apply items) r = Reporter_apply items r"
| "exec (Set key v) r = Reporter_set key v r"
| "exec (Add key amount) r = Reporter_add key amount r"
| "exec (Sub key amount) r = Reporter_sub key amount r"
| "exec (Prune predicates) r = Reporter_prune predicates r"
| "exec (Transform opts) r = Reporter_transform opts r"

fun run :: "command list \<Rightarrow> reporter \<Rightarrow> reporter" where
  "run [] r = r"
| "run (c # cs) r = run cs (exec c r)"

text \<open>The committed state after each call of a sequence.\<close>

fun states :: "command list \<Rightarrow> reporter \<Rightarrow> props list" where
  "states [] r = []"
| "states (c # cs) r = state (exec c r) # states cs (exec c r)"

text \<open>What the subject is given by each call of a sequence.\<close>

fun emissions :: "command list \<Rightarrow> reporter \<Rightarrow> props list" where
  "emissions [] r = []"
| "emissions (c # cs) r =
     drop (length (subject r)) (subject (exec c r)) @ emissions cs (exec c r)"

text \<open>
  The subject's current value is the committed state: the constructor establishes
  this and every method keeps it.
\<close>

definition reporter_inv :: "reporter \<Rightarrow> bool" where
  "reporter_inv r \<longleftrightarrow> subject r \<noteq> [] \<and> last (subject r) = state r"

section \<open>The reporter over a plain subject\<close>

text \<open>
  The second \<^verbatim>\<open>Reporter\<close> of \<^verbatim>\<open>src/observability/metrics/reporter.ts\<close> holds a
  \<^verbatim>\<open>Subject\<close>, which has no value until the first \<^verbatim>\<open>next\<close>. Its \<^verbatim>\<open>apply\<close> takes
  one delta and writes the keys whose value differs; its \<^verbatim>\<open>add\<close> and \<^verbatim>\<open>sub\<close>
  throw. A call returns the reporter as the call left it, and the error if it threw.
\<close>

datatype error = TypeError string

definition Reporter0 :: "props option \<Rightarrow> reporter" where
  "Reporter0 initial =
     (let s = (case initial of None \<Rightarrow> [] | Some i \<Rightarrow> i)
      in \<lparr>state = s, subject = []\<rparr>)"

fun Reporter0_apply_loop :: "props \<Rightarrow> props \<Rightarrow> string list \<Rightarrow> props \<times> bool \<Rightarrow> props \<times> bool" where
  "Reporter0_apply_loop s delta [] acc = acc"
| "Reporter0_apply_loop s delta (key # rest) (current, changed) =
     (if \<not> object_is (lookup delta key) (get_member s key)
      then Reporter0_apply_loop s delta rest (set_member current key (lookup delta key), True)
      else Reporter0_apply_loop s delta rest (current, changed))"

definition Reporter0_apply :: "props \<Rightarrow> reporter \<Rightarrow> reporter" where
  "Reporter0_apply delta r =
     (let (current, changed) = Reporter0_apply_loop (state r) delta (map fst delta) (state r, False)
      in if changed then r\<lparr>state := current, subject := subject r @ [current]\<rparr> else r)"

definition Reporter0_set :: "string \<Rightarrow> jsvalue \<Rightarrow> reporter \<Rightarrow> reporter" where
  "Reporter0_set key v r = Reporter0_apply [(key, v)] r"

definition not_a_number :: "string \<Rightarrow> jsvalue \<Rightarrow> error" where
  "not_a_number key v = TypeError (''key '' @ key @ '' is not a number, is '' @ typeof v)"

definition Reporter0_add :: "string \<Rightarrow> jsnum \<Rightarrow> reporter \<Rightarrow> reporter \<times> error option" where
  "Reporter0_add key amount r =
     (if \<not> truthy (get_member (state r) key) then (Reporter0_set key (Num amount) r, None)
      else (case get_member (state r) key of
              Num n \<Rightarrow> (Reporter0_apply [(key, Num (js_add n amount))] r, None)
            | other \<Rightarrow> (r, Some (not_a_number key other))))"

definition Reporter0_sub :: "string \<Rightarrow> jsnum \<Rightarrow> reporter \<Rightarrow> reporter \<times> error option" where
  "Reporter0_sub key amount r =
     (if \<not> truthy (get_member (state r) key) then (Reporter0_set key (Num amount) r, None)
      else (case get_member (state r) key of
              Num n \<Rightarrow> (Reporter0_apply [(key, Num (js_sub n amount))] r, None)
            | other \<Rightarrow> (r, Some (not_a_number key other))))"


section \<open>Facts about objects and the oracle\<close>

lemma shallowEqual_loop_iff:
  "shallowEqual_loop a b ks \<longleftrightarrow> (\<forall>k \<in> set ks. hasOwn b k \<and> get_prop a k = get_prop b k)"
  by (induction ks) (auto simp: object_is_def)

lemma shallowEqual_refl: "shallowEqual a a"
  by (auto simp: shallowEqual_def shallowEqual_loop_iff hasOwn_def object_keys_def)

lemma get_prop_plain: "get_prop (plain s) k = lookup s k"
  by (simp add: get_prop_def plain_def lookup_def)

lemma hasOwn_plain: "hasOwn (plain s) k \<longleftrightarrow> k \<in> fst ` set s"
  by (simp add: hasOwn_def plain_def)

lemma object_keys_plain: "object_keys (plain s) = map fst s"
  by (simp add: object_keys_def plain_def)

lemma in_keys_iff: "k \<in> fst ` set s \<longleftrightarrow> map_of s k \<noteq> None"
  by (simp add: map_of_eq_None_iff)

lemma lookup_eq_iff:
  "lookup a k = lookup b k \<and> (k \<in> fst ` set a \<longleftrightarrow> k \<in> fst ` set b) \<longleftrightarrow> map_of a k = map_of b k"
  unfolding in_keys_iff lookup_def
  by (cases "map_of a k"; cases "map_of b k") auto

lemma card_keys: "wf_props s \<Longrightarrow> card (fst ` set s) = length s"
  unfolding wf_props_def by (metis distinct_card length_map set_map)

text \<open>
  On well-formed plain objects the oracle decides equality of the key-value maps.
\<close>

lemma shallowEqual_plain_iff:
  assumes "wf_props a" and "wf_props b"
  shows "shallowEqual (plain a) (plain b) \<longleftrightarrow> map_of a = map_of b"
proof
  assume eq: "shallowEqual (plain a) (plain b)"
  then have len: "length a = length b"
    by (simp add: shallowEqual_def object_keys_plain split: if_splits)
  from eq have each: "\<forall>k \<in> fst ` set a. k \<in> fst ` set b \<and> lookup a k = lookup b k"
    by (simp add: shallowEqual_def object_keys_plain shallowEqual_loop_iff hasOwn_plain get_prop_plain
        split: if_splits)
  then have sub: "fst ` set a \<subseteq> fst ` set b" by blast
  have "card (fst ` set a) = length a" "card (fst ` set b) = length b"
    using assms by (simp_all add: card_keys)
  with len sub have same: "fst ` set a = fst ` set b"
    by (simp add: card_subset_eq)
  show "map_of a = map_of b"
  proof
    fix k
    show "map_of a k = map_of b k"
    proof (cases "k \<in> fst ` set a")
      case True
      with each same show ?thesis using lookup_eq_iff [of a k b] by blast
    next
      case False
      with same show ?thesis by (metis in_keys_iff)
    qed
  qed
next
  assume eq: "map_of a = map_of b"
  then have same: "fst ` set a = fst ` set b"
    by (metis dom_map_of_conv_image_fst)
  have "card (fst ` set a) = length a" "card (fst ` set b) = length b"
    using assms by (simp_all add: card_keys)
  with same have len: "length a = length b" by simp
  show "shallowEqual (plain a) (plain b)"
    using len same eq
    by (simp add: shallowEqual_def object_keys_plain shallowEqual_loop_iff hasOwn_plain get_prop_plain
        lookup_def)
qed

lemma wf_props_update: "wf_props s \<Longrightarrow> wf_props (AList.update k v s)"
  by (simp add: wf_props_def distinct_update)

lemma wf_props_set_member: "wf_props s \<Longrightarrow> wf_props (set_member s k v)"
  by (simp add: set_member_def wf_props_update)

lemma wf_props_object_assign: "wf_props t \<Longrightarrow> wf_props (object_assign t d)"
  unfolding object_assign_def
  by (induction d arbitrary: t) (auto simp: wf_props_set_member)

lemma set_member_own: "k \<in> fst ` set t \<Longrightarrow> set_member t k v = AList.update k v t"
  by (simp add: set_member_def)

lemma set_member_ordinary: "k \<noteq> ''__proto__'' \<Longrightarrow> set_member t k v = AList.update k v t"
  by (simp add: set_member_def)

lemma set_member_proto: "''__proto__'' \<notin> fst ` set t \<Longrightarrow> set_member t ''__proto__'' v = t"
  by (simp add: set_member_def)

lemma proto_owned_set_member:
  "''__proto__'' \<in> fst ` set (set_member t k v) \<longleftrightarrow> ''__proto__'' \<in> fst ` set t"
  by (auto simp: set_member_def dom_update)

lemma filter_owned:
  "''__proto__'' \<in> fst ` set t' \<longleftrightarrow> ''__proto__'' \<in> fst ` set t \<Longrightarrow>
   filter (\<lambda>(k, v). k \<noteq> ''__proto__'' \<or> k \<in> fst ` set t') d
     = filter (\<lambda>(k, v). k \<noteq> ''__proto__'' \<or> k \<in> fst ` set t) d"
  by (rule filter_cong) auto

text \<open>
  What \<^verbatim>\<open>Object.assign\<close> leaves: for every key the last value the source gives
  it, except that a source key \<^verbatim>\<open>__proto__\<close> is dropped when the target does not
  own that key.
\<close>

lemma map_of_object_assign:
  "map_of (object_assign t d)
     = map_of t ++ map_of (rev (filter (\<lambda>(k, v). k \<noteq> ''__proto__'' \<or> k \<in> fst ` set t) d))"
  unfolding object_assign_def
proof (induction d arbitrary: t)
  case Nil
  show ?case by simp
next
  case (Cons x d)
  obtain k v where x: "x = (k, v)" by (cases x)
  let ?P = "\<lambda>t. \<lambda>(k, v). k \<noteq> ''__proto__'' \<or> k \<in> fst ` set t"
  show ?case
  proof (cases "k = ''__proto__'' \<and> k \<notin> fst ` set t")
    case True
    then have k: "k = ''__proto__''" and notown: "''__proto__'' \<notin> fst ` set t"
      by auto
    then have "set_member t k v = t"
      by (simp add: set_member_proto)
    with Cons.IH [of t] show ?thesis
      by (simp add: x k notown)
  next
    case False
    then have upd: "set_member t k v = AList.update k v t"
      by (auto simp: set_member_def)
    from False have "''__proto__'' \<in> fst ` set (AList.update k v t) \<longleftrightarrow> ''__proto__'' \<in> fst ` set t"
      by (auto simp: dom_update)
    then have same: "filter (?P (AList.update k v t)) d = filter (?P t) d"
      by (rule filter_owned)
    from False have keep: "?P t (k, v)" by auto
    have "map_of (fold (\<lambda>(k, v) t. set_member t k v) (x # d) t)
        = map_of (fold (\<lambda>(k, v) t. set_member t k v) d (AList.update k v t))"
      by (simp add: x upd)
    also have "\<dots> = map_of (AList.update k v t)
        ++ map_of (rev (filter (?P (AList.update k v t)) d))"
      by (rule Cons.IH)
    also have "\<dots> = map_of (AList.update k v t) ++ map_of (rev (filter (?P t) d))"
      by (simp only: same)
    also have "\<dots> = map_of t ++ map_of (rev (filter (?P t) (x # d)))"
      using keep by (simp add: x update_conv' map_add_upd_left)
    finally show ?thesis .
  qed
qed

lemma wf_props_apply_items: "wf_props s \<Longrightarrow> wf_props (apply_items items s)"
  by (induction items arbitrary: s) (auto simp: wf_props_object_assign Let_def)

lemma apply_items_append:
  "apply_items (xs @ ys) s = apply_items ys (apply_items xs s)"
  by (induction xs arbitrary: s) (auto simp: Let_def)

lemma update_fresh: "k \<notin> fst ` set acc \<Longrightarrow> AList.update k v acc = acc @ [(k, v)]"
  by (induction acc) auto

lemma lookup_update_same: "lookup (AList.update k v s) k = v"
  by (simp add: lookup_def update_conv')

lemma update_changes:
  assumes "lookup s k \<noteq> v"
  shows "\<not> shallowEqual (plain s) (plain (AList.update k v s))"
proof (cases "k \<in> fst ` set s")
  case True
  show ?thesis
  proof
    assume "shallowEqual (plain s) (plain (AList.update k v s))"
    then have "\<forall>k' \<in> fst ` set s. lookup s k' = lookup (AList.update k v s) k'"
      by (simp add: shallowEqual_def object_keys_plain shallowEqual_loop_iff get_prop_plain
          split: if_splits)
    with True have "lookup s k = lookup (AList.update k v s) k" by blast
    with assms show False by (simp add: lookup_update_same)
  qed
next
  case False
  then show ?thesis
    by (simp add: shallowEqual_def object_keys_plain update_fresh)
qed

lemma apply_one_operation:
  assumes "f (state r) = [(k, v)]" and "lookup (state r) k \<noteq> v" and "k \<in> fst ` set (state r)"
  shows "Reporter_apply [Op f] r
     = r\<lparr>state := AList.update k v (state r), subject := subject r @ [AList.update k v (state r)]\<rparr>"
  using assms update_changes [of "state r" k v]
  by (simp add: Reporter_apply_def object_assign_def Let_def set_member_own)

lemma get_member_own: "k \<in> fst ` set s \<Longrightarrow> get_member s k = lookup s k"
  by (auto simp: get_member_def lookup_def in_keys_iff split: option.splits)

lemma get_member_absent:
  "k \<notin> fst ` set s \<Longrightarrow>
   get_member s k = (if k \<in> set object_prototype_names then Builtin k else Undefined)"
  by (simp add: get_member_def in_keys_iff)

text \<open>
  No member of \<^verbatim>\<open>Object.prototype\<close> is a number, so the number that \<^verbatim>\<open>add\<close>
  and \<^verbatim>\<open>sub\<close> start from is the own property's, or 0.
\<close>

lemma current_number:
  "(case get_member s k of Num n \<Rightarrow> n | _ \<Rightarrow> Fin 0) = (case lookup s k of Num n \<Rightarrow> n | _ \<Rightarrow> Fin 0)"
proof (cases "k \<in> fst ` set s")
  case True
  then show ?thesis by (simp add: get_member_own)
next
  case False
  then have "lookup s k = Undefined"
    by (simp add: lookup_def in_keys_iff)
  with False show ?thesis
    by (simp add: get_member_absent)
qed

lemma add_own:
  "add key amount s = [(key, Num (js_add (case lookup s key of Num n \<Rightarrow> n | _ \<Rightarrow> Fin 0) amount))]"
  by (simp add: add_def current_number)

lemma sub_own:
  "sub key amount s = [(key, Num (js_sub (case lookup s key of Num n \<Rightarrow> n | _ \<Rightarrow> Fin 0) amount))]"
  by (simp add: sub_def current_number)

section \<open>Batches\<close>

text \<open>
  C1. \<^verbatim>\<open>apply\<close> folds the batch into a working copy and then asks the oracle once.
  If the oracle finds the working copy different from the committed state, the working
  copy becomes the state and exactly one snapshot goes to the subject; otherwise the
  reporter is left as it was. On a reporter whose state names each key once, the
  oracle finds them equal exactly when the batch's net effect on the key-value map is
  the identity, so such a batch emits nothing and leaves the state unchanged.
\<close>

theorem apply_commits_iff_changed:
  assumes "wf_props (state r)"
  shows "Reporter_apply items r =
           (if shallowEqual (plain (state r)) (plain (apply_items items (state r))) then r
            else r\<lparr>state := apply_items items (state r),
                   subject := subject r @ [apply_items items (state r)]\<rparr>)
         \<and> (shallowEqual (plain (state r)) (plain (apply_items items (state r)))
              \<longleftrightarrow> map_of (apply_items items (state r)) = map_of (state r))"
proof -
  have "wf_props (apply_items items (state r))"
    using assms by (rule wf_props_apply_items)
  with assms have "shallowEqual (plain (state r)) (plain (apply_items items (state r)))
      \<longleftrightarrow> map_of (state r) = map_of (apply_items items (state r))"
    by (rule shallowEqual_plain_iff)
  then show ?thesis
    by (auto simp: Reporter_apply_def Let_def)
qed

text \<open>
  The batch of the repository's test "skips emit if batch net is identity":
  from \<^verbatim>\<open>{foo: 10, bar: 5, stage: "initial"}\<close>,
  \<^verbatim>\<open>apply(set("foo", 10), {bar: 5}, sub("bar", 0))\<close>.
\<close>

theorem apply_commits_iff_changed_witness:
  "wf_props (state (Reporter (Some [(''foo'', Num (Fin 10)), (''bar'', Num (Fin 5)),
       (''stage'', Str ''initial'')])))
   \<and> Reporter_apply [Op (set_op ''foo'' (Num (Fin 10))), Delta [(''bar'', Num (Fin 5))],
         Op (sub ''bar'' (Fin 0))]
       (Reporter (Some [(''foo'', Num (Fin 10)), (''bar'', Num (Fin 5)),
          (''stage'', Str ''initial'')]))
     = Reporter (Some [(''foo'', Num (Fin 10)), (''bar'', Num (Fin 5)),
          (''stage'', Str ''initial'')])"
proof -
  define r where "r = Reporter (Some [(''foo'', Num (Fin 10)), (''bar'', Num (Fin 5)),
       (''stage'', Str ''initial'')])"
  define items where "items = [Op (set_op ''foo'' (Num (Fin 10))), Delta [(''bar'', Num (Fin 5))],
         Op (sub ''bar'' (Fin 0))]"
  have st: "state r = [(''foo'', Num (Fin 10)), (''bar'', Num (Fin 5)), (''stage'', Str ''initial'')]"
    by (simp add: r_def Reporter_def Let_def)
  have wf: "wf_props (state r)"
    by (simp add: st wf_props_def)
  have net: "apply_items items (state r) = state r"
    by (simp add: st items_def set_op_def sub_own object_assign_def set_member_def lookup_def
        js_sub_def)
  from apply_commits_iff_changed [OF wf, of items] net
  have "Reporter_apply items r = r" by simp
  with wf show ?thesis
    unfolding r_def items_def by simp
qed

text \<open>
  Each item of a batch is evaluated on the working copy that the earlier items left:
  an operation is applied to that copy, a raw delta is taken as it is, and either is
  merged by \<^verbatim>\<open>Object.assign\<close>. For every key but \<^verbatim>\<open>__proto__\<close> the last write
  wins. From \<^verbatim>\<open>{foo: 10}\<close>,
  \<^verbatim>\<open>apply(add("foo", 1), add("foo", 2), sub("foo", 1))\<close> leaves \<^verbatim>\<open>foo\<close> at 12 and
  emits once.
\<close>

lemma apply_items_sequential:
  "apply_items (items @ [Op f]) s
     = object_assign (apply_items items s) (f (apply_items items s))
   \<and> apply_items (items @ [Delta d]) s = object_assign (apply_items items s) d
   \<and> map_of (object_assign t d)
       = map_of t ++ map_of (rev (filter (\<lambda>(k, v). k \<noteq> ''__proto__'' \<or> k \<in> fst ` set t) d))
   \<and> Reporter_apply [Op (add ''foo'' (Fin 1)), Op (add ''foo'' (Fin 2)), Op (sub ''foo'' (Fin 1))]
         (Reporter (Some [(''foo'', Num (Fin 10))]))
       = \<lparr>state = [(''foo'', Num (Fin 12))],
          subject = [[(''foo'', Num (Fin 10))], [(''foo'', Num (Fin 12))]]\<rparr>"
proof -
  have "Reporter_apply [Op (add ''foo'' (Fin 1)), Op (add ''foo'' (Fin 2)), Op (sub ''foo'' (Fin 1))]
         (Reporter (Some [(''foo'', Num (Fin 10))]))
       = \<lparr>state = [(''foo'', Num (Fin 12))],
          subject = [[(''foo'', Num (Fin 10))], [(''foo'', Num (Fin 12))]]\<rparr>"
    by code_simp
  then show ?thesis
    using map_of_object_assign [of t d] by (simp add: apply_items_append)
qed

text \<open>
  C2 on the raw delta \<^verbatim>\<open>{["__proto__"]: 5}\<close>, applied to a reporter whose state is
  empty. The claim has the delta merged as it is, so that the state owns the key with
  the value 5 and one snapshot is emitted. \<^verbatim>\<open>Object.assign\<close> assigns the key to the
  working copy, which does not own it; the assignment reaches the inherited setter and
  the copy stays empty, so \<^verbatim>\<open>apply\<close> commits nothing and emits nothing. The
  constructor's spread, given the same object, keeps the key.
\<close>

theorem apply_drops_proto_key:
  "Reporter_apply [Delta [(''__proto__'', Num (Fin 5))]] (Reporter None)
     = \<lparr>state = [], subject = [[]]\<rparr>
   \<and> Reporter (Some [(''__proto__'', Num (Fin 5))])
     = \<lparr>state = [(''__proto__'', Num (Fin 5))], subject = [[(''__proto__'', Num (Fin 5))]]\<rparr>"
  by code_simp

section \<open>The operation constructors\<close>

lemma typeof_number_iff: "typeof v = ''number'' \<longleftrightarrow> (\<exists>n. v = Num n)"
  by (cases v) auto

lemma js_add_zero_left: "amount \<noteq> NegZero \<Longrightarrow> js_add (Fin 0) amount = amount"
  by (cases amount) auto

text \<open>
  C9, as stated, at the amount \<open>-0\<close> on a state without the key: the claim has
  \<^verbatim>\<open>add("x", -0)\<close> return \<^verbatim>\<open>{x: -0}\<close>; the body computes \<^verbatim>\<open>0 + -0\<close>, which
  is \<open>+0\<close>, and \<^verbatim>\<open>Object.is\<close> tells the two zeros apart.
\<close>

theorem add_negative_zero_counterexample:
  "add ''x'' NegZero [] \<noteq> [(''x'', Num NegZero)]"
  by (simp add: add_own lookup_def)

text \<open>
  C9, amended. When the value at the key is a number \<open>n\<close>, \<^verbatim>\<open>add\<close> returns the
  one-key delta with \<open>n + amount\<close> and \<^verbatim>\<open>sub\<close> the one with \<open>n - amount\<close>. When
  it is of any other type, or the key is absent, they return \<open>0 + amount\<close> and
  \<open>0 - amount\<close>; \<open>0 + amount\<close> is \<open>amount\<close> itself for every amount but \<open>-0\<close>.
  The delta depends on the state only through the value at the key, so evaluating an
  operation again on the same state gives the same delta.
\<close>

theorem add_sub_delta:
  "(lookup s key = Num n \<longrightarrow>
      add key amount s = [(key, Num (js_add n amount))]
      \<and> sub key amount s = [(key, Num (js_sub n amount))])
   \<and> (typeof (lookup s key) \<noteq> ''number'' \<longrightarrow>
      add key amount s = [(key, Num (js_add (Fin 0) amount))]
      \<and> sub key amount s = [(key, Num (js_sub (Fin 0) amount))]
      \<and> (amount \<noteq> NegZero \<longrightarrow> add key amount s = [(key, Num amount)]))
   \<and> (key \<notin> fst ` set s \<longrightarrow> typeof (lookup s key) \<noteq> ''number'')
   \<and> (lookup s key = lookup s' key \<longrightarrow>
      add key amount s = add key amount s' \<and> sub key amount s = sub key amount s')"
proof -
  have absent: "typeof (lookup s key) \<noteq> ''number''" if "key \<notin> fst ` set s"
    using that by (simp add: lookup_def in_keys_iff)
  have other: "(case lookup s key of Num n \<Rightarrow> n | _ \<Rightarrow> Fin 0) = Fin 0"
    if "typeof (lookup s key) \<noteq> ''number''"
    using that by (cases "lookup s key") auto
  show ?thesis
    using absent other by (auto simp: add_own sub_own js_add_zero_left)
qed

theorem add_sub_delta_witness:
  "add ''n'' (Fin 2) [(''n'', Num (Fin 5)), (''s'', Str ''ready'')] = [(''n'', Num (Fin 7))]
   \<and> sub ''n'' (Fin 2) [(''n'', Num (Fin 5)), (''s'', Str ''ready'')] = [(''n'', Num (Fin 3))]
   \<and> add ''s'' (Fin 2) [(''n'', Num (Fin 5)), (''s'', Str ''ready'')] = [(''s'', Num (Fin 2))]
   \<and> sub ''s'' (Fin 2) [(''n'', Num (Fin 5)), (''s'', Str ''ready'')] = [(''s'', Num (Fin (- 2)))]
   \<and> add ''z'' (Fin 2) [(''n'', Num (Fin 5)), (''s'', Str ''ready'')] = [(''z'', Num (Fin 2))]
   \<and> add ''n'' (Fin 2) [(''n'', Num (Fin 5)), (''s'', Str ''ready'')] = add ''n'' (Fin 2) [(''n'', Num (Fin 5))]"
proof -
  let ?s = "[(''n'', Num (Fin 5)), (''s'', Str ''ready'')]"
  have n: "lookup ?s ''n'' = Num (Fin 5)" by (simp add: lookup_def)
  have s: "typeof (lookup ?s ''s'') \<noteq> ''number''" by (simp add: lookup_def)
  have z: "''z'' \<notin> fst ` set ?s" by simp
  have same: "lookup ?s ''n'' = lookup [(''n'', Num (Fin 5))] ''n''" by (simp add: lookup_def)
  have "add ''n'' (Fin 2) ?s = [(''n'', Num (js_add (Fin 5) (Fin 2)))]"
    and "sub ''n'' (Fin 2) ?s = [(''n'', Num (js_sub (Fin 5) (Fin 2)))]"
    and "add ''n'' (Fin 2) ?s = add ''n'' (Fin 2) [(''n'', Num (Fin 5))]"
    using add_sub_delta [of ?s "''n''" "Fin 5" "Fin 2" "[(''n'', Num (Fin 5))]"] n same
    by blast+
  moreover have "add ''s'' (Fin 2) ?s = [(''s'', Num (Fin 2))]"
    and "sub ''s'' (Fin 2) ?s = [(''s'', Num (js_sub (Fin 0) (Fin 2)))]"
    using add_sub_delta [of ?s "''s''" "Fin 5" "Fin 2" ?s] s by auto
  moreover have "add ''z'' (Fin 2) ?s = [(''z'', Num (Fin 2))]"
    using add_sub_delta [of ?s "''z''" "Fin 5" "Fin 2" ?s] z by auto
  ultimately show ?thesis
    by (simp add: js_sub_def)
qed

section \<open>The convenience methods\<close>

text \<open>
  C3, as stated. \<^verbatim>\<open>Reporter<T>.add\<close> applies the free-standing operation, which
  counts a value that is not a number as 0: from \<^verbatim>\<open>{status: "ready"}\<close>,
  \<^verbatim>\<open>add("status", 1)\<close> returns normally, commits \<^verbatim>\<open>{status: 1}\<close> and emits.
  The reporter over a plain subject tests \<^verbatim>\<open>!this.#state[key]\<close> first, so on
  \<^verbatim>\<open>{flag: false}\<close> its \<^verbatim>\<open>add("flag", 1)\<close> sets the key and does not throw.
\<close>

theorem add_on_non_number_counterexample:
  "Reporter_add ''status'' (Fin 1) (Reporter (Some [(''status'', Str ''ready'')]))
     = \<lparr>state = [(''status'', Num (Fin 1))],
        subject = [[(''status'', Str ''ready'')], [(''status'', Num (Fin 1))]]\<rparr>
   \<and> Reporter0_add ''flag'' (Fin 1) (Reporter0 (Some [(''flag'', Bool False)]))
     = (\<lparr>state = [(''flag'', Num (Fin 1))], subject = [[(''flag'', Num (Fin 1))]]\<rparr>, None)"
  by code_simp

text \<open>
  C3, amended. When the committed value at the key is truthy and not of type number,
  \<^verbatim>\<open>add\<close> and \<^verbatim>\<open>sub\<close> of the reporter over a plain subject throw a
  \<^verbatim>\<open>TypeError\<close> and leave the reporter as it was: the state is unchanged and
  nothing is emitted. On such a key \<^verbatim>\<open>add\<close> and \<^verbatim>\<open>sub\<close> of \<^verbatim>\<open>Reporter<T>\<close>
  do not fail: they overwrite the value with \<open>0 + amount\<close> and \<open>0 - amount\<close>,
  and emit once.
\<close>

theorem add_sub_on_non_number:
  assumes "truthy (lookup (state r) key)" and "typeof (lookup (state r) key) \<noteq> ''number''"
  shows "Reporter0_add key amount r = (r, Some (not_a_number key (lookup (state r) key)))
       \<and> Reporter0_sub key amount r = (r, Some (not_a_number key (lookup (state r) key)))
       \<and> Reporter_add key amount r
           = r\<lparr>state := AList.update key (Num (js_add (Fin 0) amount)) (state r),
               subject := subject r @ [AList.update key (Num (js_add (Fin 0) amount)) (state r)]\<rparr>
       \<and> Reporter_sub key amount r
           = r\<lparr>state := AList.update key (Num (js_sub (Fin 0) amount)) (state r),
               subject := subject r @ [AList.update key (Num (js_sub (Fin 0) amount)) (state r)]\<rparr>"
proof -
  have own: "key \<in> fst ` set (state r)"
  proof (rule ccontr)
    assume "key \<notin> fst ` set (state r)"
    then have "lookup (state r) key = Undefined"
      by (simp add: lookup_def in_keys_iff)
    with assms(1) show False by simp
  qed
  have throw: "Reporter0_add key amount r = (r, Some (not_a_number key (lookup (state r) key)))
       \<and> Reporter0_sub key amount r = (r, Some (not_a_number key (lookup (state r) key)))"
    using assms own
    by (cases "lookup (state r) key")
      (simp_all add: Reporter0_add_def Reporter0_sub_def get_member_own)
  have cur: "(case lookup (state r) key of Num n \<Rightarrow> n | _ \<Rightarrow> Fin 0) = Fin 0"
    using assms(2) by (cases "lookup (state r) key") auto
  have differs: "lookup (state r) key \<noteq> Num n" for n
    using assms(2) by auto
  have "Reporter_add key amount r
      = r\<lparr>state := AList.update key (Num (js_add (Fin 0) amount)) (state r),
          subject := subject r @ [AList.update key (Num (js_add (Fin 0) amount)) (state r)]\<rparr>"
    unfolding Reporter_add_def
    by (rule apply_one_operation) (simp_all add: add_own cur differs own)
  moreover have "Reporter_sub key amount r
      = r\<lparr>state := AList.update key (Num (js_sub (Fin 0) amount)) (state r),
          subject := subject r @ [AList.update key (Num (js_sub (Fin 0) amount)) (state r)]\<rparr>"
    unfolding Reporter_sub_def
    by (rule apply_one_operation) (simp_all add: sub_own cur differs own)
  ultimately show ?thesis
    using throw by simp
qed

theorem add_sub_on_non_number_witness:
  "Reporter0_add ''status'' (Fin 1) (Reporter0 (Some [(''status'', Str ''ready'')]))
     = (\<lparr>state = [(''status'', Str ''ready'')], subject = []\<rparr>,
        Some (TypeError ''key status is not a number, is string''))
   \<and> Reporter0_sub ''status'' (Fin 1) (Reporter0 (Some [(''status'', Str ''ready'')]))
     = (\<lparr>state = [(''status'', Str ''ready'')], subject = []\<rparr>,
        Some (TypeError ''key status is not a number, is string''))
   \<and> Reporter_snapshot (fst (Reporter0_add ''status'' (Fin 1)
         (Reporter0 (Some [(''status'', Str ''ready'')])))) = [(''status'', Str ''ready'')]
   \<and> Reporter_sub ''status'' (Fin 1) (Reporter (Some [(''status'', Str ''ready'')]))
     = \<lparr>state = [(''status'', Num (Fin (- 1)))],
        subject = [[(''status'', Str ''ready'')], [(''status'', Num (Fin (- 1)))]]\<rparr>"
proof -
  define r where "r = Reporter0 (Some [(''status'', Str ''ready'')])"
  define h where "h = Reporter (Some [(''status'', Str ''ready'')])"
  have r: "r = \<lparr>state = [(''status'', Str ''ready'')], subject = []\<rparr>"
    by (simp add: r_def Reporter0_def)
  have h: "h = \<lparr>state = [(''status'', Str ''ready'')], subject = [[(''status'', Str ''ready'')]]\<rparr>"
    by (simp add: h_def Reporter_def Let_def)
  have v: "lookup (state r) ''status'' = Str ''ready''"
    by (simp add: r lookup_def)
  have w: "lookup (state h) ''status'' = Str ''ready''"
    by (simp add: h lookup_def)
  have "truthy (lookup (state r) ''status'')" "typeof (lookup (state r) ''status'') \<noteq> ''number''"
    by (simp_all add: v)
  from add_sub_on_non_number [OF this, of "Fin 1"] v
  have thrown: "Reporter0_add ''status'' (Fin 1) r = (r, Some (not_a_number ''status'' (Str ''ready'')))"
    "Reporter0_sub ''status'' (Fin 1) r = (r, Some (not_a_number ''status'' (Str ''ready'')))"
    by simp_all
  have "truthy (lookup (state h) ''status'')" "typeof (lookup (state h) ''status'') \<noteq> ''number''"
    by (simp_all add: w)
  from add_sub_on_non_number [OF this, of "Fin 1"]
  have "Reporter_sub ''status'' (Fin 1) h
           = h\<lparr>state := AList.update ''status'' (Num (js_sub (Fin 0) (Fin 1))) (state h),
               subject := subject h @ [AList.update ''status'' (Num (js_sub (Fin 0) (Fin 1))) (state h)]\<rparr>"
    by simp
  with thrown show ?thesis
    unfolding r_def [symmetric] h_def [symmetric]
    by (simp add: r h not_a_number_def Reporter_snapshot_def js_sub_def)
qed

section \<open>Transform\<close>

lemma update_lookup_same: "k \<in> fst ` set s \<Longrightarrow> AList.update k (lookup s k) s = s"
  by (induction s) (auto simp: lookup_def)

lemma set_member_lookup_same: "k \<in> fst ` set s \<Longrightarrow> set_member s k (lookup s k) = s"
  by (simp add: set_member_own update_lookup_same)

lemma transform_loop_next:
  "set ks \<subseteq> fst ` set s \<Longrightarrow> fst (transform_loop opts s ks (s, rm)) = s"
  by (induction ks arbitrary: rm) (auto simp: set_member_lookup_same Let_def)

text \<open>
  C5. \<^verbatim>\<open>transform\<close> changes nothing: for every reporter and every options
  argument it returns the reporter with the same state and the same emissions. The
  working copy starts as a copy of the state, the loop only rewrites keys with the
  values they have, and the oracle then finds the copy equal to the state.
\<close>

theorem transform_is_identity: "Reporter_transform opts r = r"
proof -
  obtain nxt removed
    where loop: "transform_loop opts (state r) (map fst (state r)) (state r, False) = (nxt, removed)"
    by (cases "transform_loop opts (state r) (map fst (state r)) (state r, False)")
  have "fst (transform_loop opts (state r) (map fst (state r)) (state r, False)) = state r"
    by (rule transform_loop_next) simp
  with loop have "nxt = state r" by simp
  then have "shallowEqual (plain (state r)) (plain nxt)"
    by (simp add: shallowEqual_refl)
  with loop show ?thesis
    by (simp add: Reporter_transform_def)
qed

text \<open>
  C4 on the state of the repository's test for \<^verbatim>\<open>transform\<close>, with the test's
  \<^verbatim>\<open>keep\<close> list (the value is a number): no \<^verbatim>\<open>keep\<close> predicate holds of
  \<^verbatim>\<open>bar\<close>, and \<^verbatim>\<open>transform\<close> returns the reporter with all five keys and no
  new emission.
\<close>

theorem transform_keeps_rejected_keys:
  "Reporter_transform \<lparr>keep = Some [\<lambda>s k. typeof (lookup s k) = ''number'']\<rparr>
     (Reporter (Some [(''foo'', Num (Fin 1)), (''bar'', Str ''x''), (''temp_id'', Str ''abc''),
        (''debug'', Bool True), (''status'', Str ''ok'')]))
   = \<lparr>state = [(''foo'', Num (Fin 1)), (''bar'', Str ''x''), (''temp_id'', Str ''abc''),
        (''debug'', Bool True), (''status'', Str ''ok'')],
      subject = [[(''foo'', Num (Fin 1)), (''bar'', Str ''x''), (''temp_id'', Str ''abc''),
        (''debug'', Bool True), (''status'', Str ''ok'')]]\<rparr>
   \<and> \<not> list_ex (\<lambda>fn. fn [(''foo'', Num (Fin 1)), (''bar'', Str ''x''), (''temp_id'', Str ''abc''),
        (''debug'', Bool True), (''status'', Str ''ok'')] ''bar'')
        [\<lambda>s k. typeof (lookup s k) = ''number'']"
  by code_simp

section \<open>Prune\<close>

lemma prune_loop_filter:
  assumes "distinct (map fst xs)" and "fst ` set acc \<inter> fst ` set xs = {}"
    and "\<forall>(k, v) \<in> set xs. lookup s k = v" and "''__proto__'' \<notin> fst ` set acc"
  shows "prune_loop ps s (map fst xs) (acc, rm)
     = (acc @ filter (\<lambda>(k, v). list_all (\<lambda>fn. fn s k) ps \<and> k \<noteq> ''__proto__'') xs,
        rm \<or> (\<exists>k \<in> fst ` set xs. \<not> list_all (\<lambda>fn. fn s k) ps))"
  using assms
proof (induction xs arbitrary: acc rm)
  case Nil
  then show ?case by simp
next
  case (Cons x xs)
  obtain k v where x: "x = (k, v)" by (cases x)
  from Cons.prems x have fresh: "k \<notin> fst ` set acc" and val: "lookup s k = v"
    by auto
  have rest: "distinct (map fst xs)" "\<forall>(k, v) \<in> set xs. lookup s k = v"
    using Cons.prems by auto
  show ?case
  proof (cases "list_all (\<lambda>fn. fn s k) ps")
    case True
    show ?thesis
    proof (cases "k = ''__proto__''")
      case proto: True
      have "set_member acc k (lookup s k) = acc"
        using proto Cons.prems(4) by (simp add: set_member_proto)
      moreover have "prune_loop ps s (map fst xs) (acc, rm)
         = (acc @ filter (\<lambda>(k, v). list_all (\<lambda>fn. fn s k) ps \<and> k \<noteq> ''__proto__'') xs,
            rm \<or> (\<exists>k \<in> fst ` set xs. \<not> list_all (\<lambda>fn. fn s k) ps))"
        using Cons.prems rest by (intro Cons.IH) auto
      ultimately show ?thesis
        using True proto by (simp add: x)
    next
      case ordinary: False
      have "set_member acc k (lookup s k) = acc @ [(k, v)]"
        using ordinary fresh by (simp add: set_member_ordinary update_fresh val)
      moreover have "prune_loop ps s (map fst xs) (acc @ [(k, v)], rm)
         = ((acc @ [(k, v)]) @ filter (\<lambda>(k, v). list_all (\<lambda>fn. fn s k) ps \<and> k \<noteq> ''__proto__'') xs,
            rm \<or> (\<exists>k \<in> fst ` set xs. \<not> list_all (\<lambda>fn. fn s k) ps))"
        using Cons.prems rest x ordinary by (intro Cons.IH) auto
      ultimately show ?thesis
        using True ordinary by (simp add: x)
    qed
  next
    case False
    have "prune_loop ps s (map fst xs) (acc, True)
       = (acc @ filter (\<lambda>(k, v). list_all (\<lambda>fn. fn s k) ps \<and> k \<noteq> ''__proto__'') xs,
          True \<or> (\<exists>k \<in> fst ` set xs. \<not> list_all (\<lambda>fn. fn s k) ps))"
      using Cons.prems rest by (intro Cons.IH) auto
    with False show ?thesis
      by (simp add: x)
  qed
qed

lemma lookup_entry: "wf_props s \<Longrightarrow> (k, v) \<in> set s \<Longrightarrow> lookup s k = v"
  by (simp add: wf_props_def lookup_def)

text \<open>
  On a reporter whose state names each key once, \<^verbatim>\<open>prune\<close> leaves the reporter as
  it was, with nothing emitted, if every key satisfies every predicate. If at least
  one key does not, it commits and emits once the entries whose key satisfies every
  predicate and is not \<^verbatim>\<open>__proto__\<close>, in their order.
\<close>

lemma prune_keeps_survivors:
  assumes "wf_props (state r)"
  shows "Reporter_prune ps r =
     (if \<forall>k \<in> fst ` set (state r). list_all (\<lambda>fn. fn (state r) k) ps then r
      else r\<lparr>state := filter (\<lambda>(k, v). list_all (\<lambda>fn. fn (state r) k) ps \<and> k \<noteq> ''__proto__'')
                        (state r),
             subject := subject r
               @ [filter (\<lambda>(k, v). list_all (\<lambda>fn. fn (state r) k) ps \<and> k \<noteq> ''__proto__'')
                    (state r)]\<rparr>)"
proof -
  let ?s = "state r"
  let ?keep = "\<lambda>(k, v). list_all (\<lambda>fn. fn ?s k) ps \<and> k \<noteq> ''__proto__''"
  have loop: "prune_loop ps ?s (map fst ?s) ([], False)
      = ([] @ filter ?keep ?s, False \<or> (\<exists>k \<in> fst ` set ?s. \<not> list_all (\<lambda>fn. fn ?s k) ps))"
    using assms by (intro prune_loop_filter) (auto simp: wf_props_def lookup_entry)
  show ?thesis
  proof (cases "\<forall>k \<in> fst ` set ?s. list_all (\<lambda>fn. fn ?s k) ps")
    case True
    with loop show ?thesis by (simp add: Reporter_prune_def)
  next
    case False
    then obtain x where "x \<in> set ?s" and "\<not> ?keep x" by auto
    then have "length (filter ?keep ?s) < length ?s"
      by (rule length_filter_less)
    then have "\<not> shallowEqual (plain ?s) (plain (filter ?keep ?s))"
      by (simp add: shallowEqual_def object_keys_plain)
    with False loop show ?thesis by (auto simp: Reporter_prune_def)
  qed
qed

text \<open>
  From \<^verbatim>\<open>{foo: 1, bar: 2, baz: 3, qux: 4}\<close>, pruning with "the key is not foo" and
  "the key is not bar" leaves \<^verbatim>\<open>{baz: 3, qux: 4}\<close> and emits once; pruning the
  result with a predicate that always holds changes nothing.
\<close>

lemma prune_keeps_survivors_example:
  "Reporter_prune [\<lambda>s k. k \<noteq> ''foo'', \<lambda>s k. k \<noteq> ''bar'']
       (Reporter (Some [(''foo'', Num (Fin 1)), (''bar'', Num (Fin 2)),
          (''baz'', Num (Fin 3)), (''qux'', Num (Fin 4))]))
     = \<lparr>state = [(''baz'', Num (Fin 3)), (''qux'', Num (Fin 4))],
        subject = [[(''foo'', Num (Fin 1)), (''bar'', Num (Fin 2)),
                    (''baz'', Num (Fin 3)), (''qux'', Num (Fin 4))],
                   [(''baz'', Num (Fin 3)), (''qux'', Num (Fin 4))]]\<rparr>
   \<and> Reporter_prune [\<lambda>s k. True]
       \<lparr>state = [(''baz'', Num (Fin 3)), (''qux'', Num (Fin 4))],
        subject = [[(''foo'', Num (Fin 1)), (''bar'', Num (Fin 2)),
                    (''baz'', Num (Fin 3)), (''qux'', Num (Fin 4))],
                   [(''baz'', Num (Fin 3)), (''qux'', Num (Fin 4))]]\<rparr>
     = \<lparr>state = [(''baz'', Num (Fin 3)), (''qux'', Num (Fin 4))],
        subject = [[(''foo'', Num (Fin 1)), (''bar'', Num (Fin 2)),
                    (''baz'', Num (Fin 3)), (''qux'', Num (Fin 4))],
                   [(''baz'', Num (Fin 3)), (''qux'', Num (Fin 4))]]\<rparr>"
  by code_simp

text \<open>
  C7 on a state that owns the key \<^verbatim>\<open>__proto__\<close>: the reporter is constructed from
  \<^verbatim>\<open>{["__proto__"]: 1, a: 2}\<close> and pruned with "the key is not a". The predicate
  accepts \<^verbatim>\<open>__proto__\<close>, so the claim has the pruned state keep it. \<^verbatim>\<open>prune\<close>
  assigns the key to the fresh \<^verbatim>\<open>next\<close>, which does not own it; the assignment
  reaches the inherited setter and \<^verbatim>\<open>next\<close> stays empty, so the empty state is
  committed and emitted.
\<close>

theorem prune_drops_proto_key:
  "Reporter_prune [\<lambda>s k. k \<noteq> ''a'']
       (Reporter (Some [(''__proto__'', Num (Fin 1)), (''a'', Num (Fin 2))]))
     = \<lparr>state = [],
        subject = [[(''__proto__'', Num (Fin 1)), (''a'', Num (Fin 2))], []]\<rparr>
   \<and> list_all (\<lambda>fn. fn [(''__proto__'', Num (Fin 1)), (''a'', Num (Fin 2))] ''__proto__'')
        [\<lambda>s k. k \<noteq> ''a'']"
  by code_simp

section \<open>The oracle on properties that are not enumerable\<close>

lemma object_is_special_values:
  "object_is (Num NaN) (Num NaN) \<and> \<not> object_is (Num (Fin 0)) (Num NegZero)
   \<and> \<not> object_is Null Undefined"
  by (simp add: object_is_def)

lemma shallowEqual_same_count:
  "shallowEqual a b \<Longrightarrow> length (object_keys a) = length (object_keys b)"
  by (simp add: shallowEqual_def split: if_splits)

text \<open>
  C8 on an object that owns a property that is not enumerable. \<open>a\<close> is
  \<^verbatim>\<open>{h: 42}\<close>; \<open>b\<close> is \<^verbatim>\<open>{x: 1}\<close> with \<^verbatim>\<open>h\<close> defined on it as 42 and not
  enumerable. The enumerable keys are \<^verbatim>\<open>h\<close> and \<^verbatim>\<open>x\<close>, one each, so the
  counts agree; \<^verbatim>\<open>Object.hasOwn(b, "h")\<close> holds and the two values are the same,
  so \<^verbatim>\<open>shallowEqual(a, b)\<close> is true.
\<close>

theorem shallowEqual_sees_hidden_property:
  "shallowEqual \<lparr>enumerable = [(''h'', Num (Fin 42))], hidden = []\<rparr>
       \<lparr>enumerable = [(''x'', Num (Fin 1))], hidden = [(''h'', Num (Fin 42))]\<rparr>
   \<and> set (object_keys \<lparr>enumerable = [(''h'', Num (Fin 42))], hidden = []\<rparr>)
       \<noteq> set (object_keys \<lparr>enumerable = [(''x'', Num (Fin 1))], hidden = [(''h'', Num (Fin 42))]\<rparr>)
   \<and> wf_object \<lparr>enumerable = [(''h'', Num (Fin 42))], hidden = []\<rparr>
   \<and> wf_object \<lparr>enumerable = [(''x'', Num (Fin 1))], hidden = [(''h'', Num (Fin 42))]\<rparr>"
  by (simp add: shallowEqual_def object_keys_def hasOwn_def get_prop_def object_is_def wf_object_def)

section \<open>Facts about sequences of calls\<close>

lemma commit_cases:
  "(if g \<and> \<not> shallowEqual (plain (state r)) (plain nxt)
    then r\<lparr>state := nxt, subject := subject r @ [nxt]\<rparr> else r) = r' \<Longrightarrow>
   r' = r \<or> (\<not> shallowEqual (plain (state r)) (plain (state r')) \<and> subject r' = subject r @ [state r'])"
  by (auto split: if_splits)

lemma exec_cases:
  "exec c r = r \<or>
   (\<not> shallowEqual (plain (state r)) (plain (state (exec c r)))
    \<and> subject (exec c r) = subject r @ [state (exec c r)])"
proof -
  have app: "Reporter_apply items r = r \<or>
    (\<not> shallowEqual (plain (state r)) (plain (state (Reporter_apply items r)))
     \<and> subject (Reporter_apply items r) = subject r @ [state (Reporter_apply items r)])" for items
    by (rule commit_cases [where g = True]) (simp add: Reporter_apply_def Let_def)
  show ?thesis
  proof (cases c)
    case (Prune ps)
    then show ?thesis
      by (auto simp: Reporter_prune_def split: prod.splits intro!: commit_cases)
  next
    case (Transform opts)
    then show ?thesis
      by (auto simp: Reporter_transform_def split: prod.splits intro!: commit_cases)
  qed (use app in \<open>simp_all add: Reporter_set_def Reporter_add_def Reporter_sub_def\<close>)
qed

lemma reporter_inv_Reporter: "reporter_inv (Reporter initial)"
  by (simp add: reporter_inv_def Reporter_def Let_def)

lemma reporter_inv_exec: "reporter_inv r \<Longrightarrow> reporter_inv (exec c r)"
  using exec_cases [of c r] by (auto simp: reporter_inv_def)

lemma reporter_inv_run: "reporter_inv r \<Longrightarrow> reporter_inv (run cs r)"
  by (induction cs arbitrary: r) (auto simp: reporter_inv_exec)

lemma subject_run: "subject (run cs r) = subject r @ emissions cs r"
proof (induction cs arbitrary: r)
  case Nil
  show ?case by simp
next
  case (Cons c cs)
  have "subject (exec c r) = subject r @ drop (length (subject r)) (subject (exec c r))"
    using exec_cases [of c r] by auto
  with Cons.IH [of "exec c r"] show ?case
    by (metis append.assoc emissions.simps(2) run.simps(2))
qed

lemma behavior_values_run:
  "reporter_inv r \<Longrightarrow> behavior_values r (run cs r) = state r # emissions cs r"
  by (simp add: behavior_values_def subject_run reporter_inv_def)

lemma distinct_emissions:
  "distinctUntilChanged_from (\<lambda>a b. shallowEqual (plain a) (plain b)) (state r) (emissions cs r)
     = emissions cs r"
proof (induction cs arbitrary: r)
  case Nil
  show ?case by simp
next
  case (Cons c cs)
  from exec_cases [of c r] show ?case
  proof
    assume "exec c r = r"
    with Cons.IH [of r] show ?thesis by simp
  next
    assume "\<not> shallowEqual (plain (state r)) (plain (state (exec c r)))
      \<and> subject (exec c r) = subject r @ [state (exec c r)]"
    with Cons.IH [of "exec c r"] show ?thesis by simp
  qed
qed

lemma metrics_stream_run:
  "reporter_inv r \<Longrightarrow> metrics_stream r (run cs r) = state r # emissions cs r"
  by (simp add: metrics_stream_def behavior_values_run distinct_emissions)

lemma pairs_of_emissions:
  assumes "\<And>s. \<not> P (s, s)"
  shows "filter P (pairwise_list (state r # emissions cs r)) = filter P (pairwise_list (state r # states cs r))"
proof (induction cs arbitrary: r)
  case Nil
  show ?case by simp
next
  case (Cons c cs)
  from exec_cases [of c r] show ?case
  proof
    assume "exec c r = r"
    with Cons.IH [of r] assms show ?thesis by simp
  next
    assume "\<not> shallowEqual (plain (state r)) (plain (state (exec c r)))
      \<and> subject (exec c r) = subject r @ [state (exec c r)]"
    with Cons.IH [of "exec c r"] show ?thesis by simp
  qed
qed

section \<open>Watch\<close>

text \<open>
  C10. With no keys, \<^verbatim>\<open>keys.some(...)\<close> is false for every pair, so the stream of
  \<^verbatim>\<open>watch()\<close> never emits, whatever \<^verbatim>\<open>metrics$\<close> delivers: after
  \<^verbatim>\<open>set("a", 2)\<close> on \<^verbatim>\<open>{a: 1}\<close> the main stream has delivered two snapshots
  and the watch stream none.
\<close>

theorem watch_without_keys_is_silent:
  "Reporter_watch [] r source = []
   \<and> metrics_stream (Reporter (Some [(''a'', Num (Fin 1))]))
        (Reporter_set ''a'' (Num (Fin 2)) (Reporter (Some [(''a'', Num (Fin 1))])))
       = [[(''a'', Num (Fin 1))], [(''a'', Num (Fin 2))]]
   \<and> Reporter_watch [] (Reporter (Some [(''a'', Num (Fin 1))]))
        (metrics_stream (Reporter (Some [(''a'', Num (Fin 1))]))
           (Reporter_set ''a'' (Num (Fin 2)) (Reporter (Some [(''a'', Num (Fin 1))]))))
       = []"
proof -
  have silent: "Reporter_watch [] r' src = []" for r' src
    by (simp add: Reporter_watch_def)
  have "metrics_stream (Reporter (Some [(''a'', Num (Fin 1))]))
        (Reporter_set ''a'' (Num (Fin 2)) (Reporter (Some [(''a'', Num (Fin 1))])))
       = [[(''a'', Num (Fin 1))], [(''a'', Num (Fin 2))]]"
    by code_simp
  with silent show ?thesis by simp
qed

text \<open>
  C6, as stated. \<^verbatim>\<open>watch("a")\<close> is called on \<^verbatim>\<open>{a: 1}\<close>, then \<^verbatim>\<open>set("a", 2)\<close>,
  and only then is the stream subscribed to; nothing is called afterwards. With the
  state at subscription as the baseline nothing would be received. The snapshot that
  \<^verbatim>\<open>startWith\<close> replays was taken when \<^verbatim>\<open>watch\<close> was called, so the subscriber
  receives \<^verbatim>\<open>{a: 2}\<close> at once.
\<close>

theorem watch_baseline_counterexample:
  "Reporter_watch [''a''] (Reporter (Some [(''a'', Num (Fin 1))]))
       (metrics_stream
          (Reporter_set ''a'' (Num (Fin 2)) (Reporter (Some [(''a'', Num (Fin 1))])))
          (Reporter_set ''a'' (Num (Fin 2)) (Reporter (Some [(''a'', Num (Fin 1))]))))
     = [[(''a'', Num (Fin 2))]]"
  by code_simp

text \<open>
  C6, amended. \<^verbatim>\<open>watch(...keys)\<close> is called on a reporter that any sequence of
  calls has produced; any calls follow before the stream is subscribed to, and any
  calls after. The first comparison is between the snapshot taken at the call of
  \<^verbatim>\<open>watch\<close> and the committed state at subscription: if some watched key reads
  differently in them (by \<^verbatim>\<open>Object.is\<close>), the subscriber receives the state at
  subscription at once. After that the subscriber receives, in order, the committed
  state after each call for which some watched key reads differently than in the
  committed state before that call. Each value received is the whole committed state.
  When the subscription follows the call of \<^verbatim>\<open>watch\<close> with nothing in between,
  the baseline is the state at subscription and nothing is received at once.
\<close>

theorem watch_forwards_key_changes:
  "Reporter_watch ks (run pre (Reporter initial))
       (metrics_stream (run mid (run pre (Reporter initial)))
          (run cs (run mid (run pre (Reporter initial)))))
     = map snd
         (filter (\<lambda>(prev, curr). list_ex (\<lambda>k. \<not> object_is (get_member prev k) (get_member curr k)) ks)
            (pairwise_list
               (state (run pre (Reporter initial))
                # state (run mid (run pre (Reporter initial)))
                # states cs (run mid (run pre (Reporter initial))))))"
proof -
  let ?w = "run pre (Reporter initial)"
  let ?r = "run mid ?w"
  let ?P = "\<lambda>(prev, curr). list_ex (\<lambda>k. \<not> object_is (get_member prev k) (get_member curr k)) ks"
  have inv: "reporter_inv ?r"
    by (simp add: reporter_inv_run reporter_inv_Reporter)
  have "\<not> ?P (s, s)" for s
    by (simp add: list_ex_iff object_is_def)
  then have "filter ?P (pairwise_list (state ?r # emissions cs ?r))
      = filter ?P (pairwise_list (state ?r # states cs ?r))"
    by (rule pairs_of_emissions)
  then have "filter ?P (pairwise_list (state ?w # state ?r # emissions cs ?r))
      = filter ?P (pairwise_list (state ?w # state ?r # states cs ?r))"
    by simp
  with inv show ?thesis
    by (simp only: Reporter_watch_def metrics_stream_run startWith_def Reporter_snapshot_def)
qed

text \<open>
  The scenario of the repository's test "emits only when watched keys change", where
  the subscription follows \<^verbatim>\<open>watch("a", "c")\<close> at once on \<^verbatim>\<open>{a: 1, b: 2, c: 3}\<close>:
  after \<^verbatim>\<open>set("b", 20)\<close> nothing has been received; after \<^verbatim>\<open>set("a", 5)\<close> one
  snapshot, with \<^verbatim>\<open>a\<close> at 5; after one batch that changes \<^verbatim>\<open>a\<close>, \<^verbatim>\<open>b\<close> and
  \<^verbatim>\<open>c\<close>, one more. And a subscription made after \<^verbatim>\<open>set("b", 20)\<close> receives
  nothing at once, while one made after \<^verbatim>\<open>set("a", 5)\<close> receives the state.
\<close>

theorem watch_forwards_key_changes_witness:
  "Reporter_watch [''a'', ''c'']
       (Reporter (Some [(''a'', Num (Fin 1)), (''b'', Num (Fin 2)), (''c'', Num (Fin 3))]))
       (metrics_stream
          (Reporter (Some [(''a'', Num (Fin 1)), (''b'', Num (Fin 2)), (''c'', Num (Fin 3))]))
          (run [Set ''b'' (Num (Fin 20))]
             (Reporter (Some [(''a'', Num (Fin 1)), (''b'', Num (Fin 2)), (''c'', Num (Fin 3))]))))
     = []
   \<and> Reporter_watch [''a'', ''c'']
       (Reporter (Some [(''a'', Num (Fin 1)), (''b'', Num (Fin 2)), (''c'', Num (Fin 3))]))
       (metrics_stream
          (Reporter (Some [(''a'', Num (Fin 1)), (''b'', Num (Fin 2)), (''c'', Num (Fin 3))]))
          (run [Set ''b'' (Num (Fin 20)), Set ''a'' (Num (Fin 5))]
             (Reporter (Some [(''a'', Num (Fin 1)), (''b'', Num (Fin 2)), (''c'', Num (Fin 3))]))))
     = [[(''a'', Num (Fin 5)), (''b'', Num (Fin 20)), (''c'', Num (Fin 3))]]
   \<and> Reporter_watch [''a'', ''c'']
       (Reporter (Some [(''a'', Num (Fin 1)), (''b'', Num (Fin 2)), (''c'', Num (Fin 3))]))
       (metrics_stream
          (Reporter (Some [(''a'', Num (Fin 1)), (''b'', Num (Fin 2)), (''c'', Num (Fin 3))]))
          (run [Set ''b'' (Num (Fin 20)), Set ''a'' (Num (Fin 5)),
                Apply [Op (add ''a'' (Fin 2)), Op (set_op ''b'' (Num (Fin 100))),
                       Op (set_op ''c'' (Num (Fin 10)))]]
             (Reporter (Some [(''a'', Num (Fin 1)), (''b'', Num (Fin 2)), (''c'', Num (Fin 3))]))))
     = [[(''a'', Num (Fin 5)), (''b'', Num (Fin 20)), (''c'', Num (Fin 3))],
        [(''a'', Num (Fin 7)), (''b'', Num (Fin 100)), (''c'', Num (Fin 10))]]
   \<and> Reporter_watch [''a'', ''c'']
       (Reporter (Some [(''a'', Num (Fin 1)), (''b'', Num (Fin 2)), (''c'', Num (Fin 3))]))
       (metrics_stream
          (run [Set ''b'' (Num (Fin 20))]
             (Reporter (Some [(''a'', Num (Fin 1)), (''b'', Num (Fin 2)), (''c'', Num (Fin 3))])))
          (run []
             (run [Set ''b'' (Num (Fin 20))]
                (Reporter (Some [(''a'', Num (Fin 1)), (''b'', Num (Fin 2)), (''c'', Num (Fin 3))])))))
     = []
   \<and> Reporter_watch [''a'', ''c'']
       (Reporter (Some [(''a'', Num (Fin 1)), (''b'', Num (Fin 2)), (''c'', Num (Fin 3))]))
       (metrics_stream
          (run [Set ''a'' (Num (Fin 5))]
             (Reporter (Some [(''a'', Num (Fin 1)), (''b'', Num (Fin 2)), (''c'', Num (Fin 3))])))
          (run []
             (run [Set ''a'' (Num (Fin 5))]
                (Reporter (Some [(''a'', Num (Fin 1)), (''b'', Num (Fin 2)), (''c'', Num (Fin 3))])))))
     = [[(''a'', Num (Fin 5)), (''b'', Num (Fin 2)), (''c'', Num (Fin 3))]]"
proof -
  define r where
    "r = Reporter (Some [(''a'', Num (Fin 1)), (''b'', Num (Fin 2)), (''c'', Num (Fin 3))])"
  define changed where
    "changed = (\<lambda>(prev, curr).
       list_ex (\<lambda>k. \<not> object_is (get_member prev k) (get_member curr k)) [''a'', ''c''])"
  have received: "Reporter_watch [''a'', ''c''] r (metrics_stream (run mid r) (run cs (run mid r)))
      = map snd (filter changed (pairwise_list (state r # state (run mid r) # states cs (run mid r))))"
    for mid cs
    using watch_forwards_key_changes [of "[''a'', ''c'']" "[]" _ mid cs]
    by (simp add: r_def changed_def)
  have at_once: "Reporter_watch [''a'', ''c''] r (metrics_stream r (run cs r))
      = map snd (filter changed (pairwise_list (state r # state r # states cs r)))" for cs
    using received [of "[]" cs] by simp
  have "map snd (filter changed (pairwise_list
      (state r # state r # states [Set ''b'' (Num (Fin 20))] r))) = []"
    unfolding r_def changed_def by code_simp
  moreover have "map snd (filter changed (pairwise_list
      (state r # state r # states [Set ''b'' (Num (Fin 20)), Set ''a'' (Num (Fin 5))] r)))
    = [[(''a'', Num (Fin 5)), (''b'', Num (Fin 20)), (''c'', Num (Fin 3))]]"
    unfolding r_def changed_def by code_simp
  moreover have "map snd (filter changed (pairwise_list
      (state r # state r # states [Set ''b'' (Num (Fin 20)), Set ''a'' (Num (Fin 5)),
                Apply [Op (add ''a'' (Fin 2)), Op (set_op ''b'' (Num (Fin 100))),
                       Op (set_op ''c'' (Num (Fin 10)))]] r)))
    = [[(''a'', Num (Fin 5)), (''b'', Num (Fin 20)), (''c'', Num (Fin 3))],
        [(''a'', Num (Fin 7)), (''b'', Num (Fin 100)), (''c'', Num (Fin 10))]]"
    unfolding r_def changed_def by code_simp
  moreover have "map snd (filter changed (pairwise_list
      (state r # state (run [Set ''b'' (Num (Fin 20))] r)
       # states [] (run [Set ''b'' (Num (Fin 20))] r)))) = []"
    unfolding r_def changed_def by code_simp
  moreover have "map snd (filter changed (pairwise_list
      (state r # state (run [Set ''a'' (Num (Fin 5))] r)
       # states [] (run [Set ''a'' (Num (Fin 5))] r))))
    = [[(''a'', Num (Fin 5)), (''b'', Num (Fin 2)), (''c'', Num (Fin 3))]]"
    unfolding r_def changed_def by code_simp
  ultimately show ?thesis
    unfolding r_def [symmetric] at_once received by blast
qed

end
